theory Spec2Isabelle
  imports Main
begin

section \<open>The AOT model compiler driver (binaries/aot\_model\_compiler.cc)\<close>

text \<open>
  A shallow embedding of the driver: the command-line flags are a record that every
  function reading a \<open>FLAGS_*\<close> global takes as an argument, a C++ exception is the
  \<open>Inl\<close> branch of a sum, and the calls into the rest of the library (the graph
  passes, the kernel compiler, the packager) are fields of a record of functions that
  the driver is given.
\<close>

subsection \<open>Flags, errors, values\<close>

record flags =
  model :: string
  model_name :: string
  model_version :: string
  input_dims :: string
  output_asm :: string
  output_model :: string

datatype error =
    EnforceError string     \<comment> \<open>\<open>CAFFE_ENFORCE\<close>, \<open>CAFFE_ENFORCE_GE\<close>: the message\<close>
  | CheckError string nat   \<comment> \<open>\<open>TORCH_CHECK\<close>: the message and the number printed after it\<close>
  | InvalidArgument         \<comment> \<open>\<open>std::invalid_argument\<close> of \<open>stoi\<close>\<close>
  | OutOfRange              \<comment> \<open>\<open>std::out_of_range\<close> of \<open>stoi\<close>\<close>
  | KeyError string         \<comment> \<open>a dictionary or a module asked for a name it does not hold\<close>
  | TypeError               \<comment> \<open>an \<open>IValue\<close> read as the wrong kind\<close>
  | ShapeCountError nat nat \<comment> \<open>the shape annotator: graph inputs, shapes given\<close>
  | BackendError string     \<comment> \<open>whatever a library call outside this file raises\<close>

type_synonym shape = "int list"

text \<open>
  \<open>c10::IValue\<close>, as far as the driver builds and reads it: a list of integers, or a
  dictionary with string keys. \<open>c10::Dict\<close> keeps insertion order, and \<open>insert\<close>
  leaves an existing key as it is.
\<close>

datatype ivalue =
    IntList "int list"
  | GenericDict "(string \<times> ivalue) list"

type_synonym dict = "(string \<times> ivalue) list"

definition dict_insert :: "dict \<Rightarrow> string \<Rightarrow> ivalue \<Rightarrow> dict" where
  "dict_insert d k v = (case map_of d k of None \<Rightarrow> d @ [(k, v)] | Some old \<Rightarrow> d)"

definition dict_at :: "dict \<Rightarrow> string \<Rightarrow> error + ivalue" where
  "dict_at d k = (case map_of d k of None \<Rightarrow> Inl (KeyError k) | Some v \<Rightarrow> Inr v)"

definition toGenericDict :: "ivalue \<Rightarrow> error + dict" where
  "toGenericDict v = (case v of GenericDict d \<Rightarrow> Inr d | IntList xs \<Rightarrow> Inl TypeError)"

definition toIntVector :: "ivalue \<Rightarrow> error + int list" where
  "toIntVector v = (case v of IntList xs \<Rightarrow> Inr xs | GenericDict d \<Rightarrow> Inl TypeError)"

subsection \<open>\<open>split\<close>\<close>

text \<open>
  \<open>std::getline(ss, item, separator)\<close> on the rest of the stream: at the end of the
  stream nothing is extracted and the stream turns false; otherwise the item is the
  text before the next separator, and the separator is consumed with it.
\<close>

fun getline :: "char \<Rightarrow> string \<Rightarrow> (string \<times> string) option" where
  "getline delim [] = None"
| "getline delim (c # cs) =
     Some (takeWhile (\<lambda>x. x \<noteq> delim) (c # cs),
           drop 1 (dropWhile (\<lambda>x. x \<noteq> delim) (c # cs)))"

function split_loop :: "char \<Rightarrow> bool \<Rightarrow> string \<Rightarrow> string list \<Rightarrow> string list" where
  "split_loop separator ignore_empty ss pieces =
     (case getline separator ss of
        None \<Rightarrow> pieces
      | Some (item, ss') \<Rightarrow>
          if \<not> ignore_empty \<or> item \<noteq> []
          then split_loop separator ignore_empty ss' (pieces @ [item])
          else split_loop separator ignore_empty ss' pieces)"
  by pat_completeness auto
termination
proof (relation "measure (\<lambda>(separator, ignore_empty, ss, pieces). length ss)")
  show "wf (measure (\<lambda>(separator, ignore_empty, ss, pieces). length ss))" by simp
next
  fix separator :: char and ignore_empty :: bool and ss :: string and pieces :: "string list"
    and x2 :: "string \<times> string" and item ss'
  assume "getline separator ss = Some x2" "(item, ss') = x2"
  then have "ss \<noteq> []" "ss' = drop 1 (dropWhile (\<lambda>x. x \<noteq> separator) ss)"
    by (cases ss; auto)+
  moreover have "length (dropWhile (\<lambda>x. x \<noteq> separator) ss) \<le> length ss"
    by (rule length_dropWhile_le)
  ultimately have "length ss' < length ss" by (cases ss) auto
  then show "((separator, ignore_empty, ss', pieces @ [item]), separator, ignore_empty, ss, pieces)
      \<in> measure (\<lambda>(separator, ignore_empty, ss, pieces). length ss)"
    and "((separator, ignore_empty, ss', pieces), separator, ignore_empty, ss, pieces)
      \<in> measure (\<lambda>(separator, ignore_empty, ss, pieces). length ss)" by simp_all
qed

declare split_loop.simps [simp del]

definition split :: "char \<Rightarrow> string \<Rightarrow> bool \<Rightarrow> string list" where
  "split separator string ignore_empty = split_loop separator ignore_empty string []"

subsection \<open>\<open>parse_input_shapes\<close>\<close>

text \<open>
  Modelled from the spec: \<open>c10::stoi\<close> (c10/util/string\_utils.h) is not among the
  sources. The spec has the dimensions as ``comma-separated integers'' and an
  unparsable dimension as a fatal error; the function is taken as \<open>std::stoi\<close> in
  base 10, which that header forwards to: leading white space is skipped, one sign is
  read, then the longest run of decimal digits; no digit is \<open>std::invalid_argument\<close>,
  a value outside the 32-bit \<open>int\<close> is \<open>std::out_of_range\<close>, and text after the
  digits is ignored.
\<close>

definition isspace :: "char \<Rightarrow> bool" where
  "isspace c = (of_char c = (32::nat) \<or> (9 \<le> (of_char c :: nat) \<and> (of_char c :: nat) \<le> 13))"

definition isdigit :: "char \<Rightarrow> bool" where
  "isdigit c = (48 \<le> (of_char c :: nat) \<and> (of_char c :: nat) \<le> 57)"

definition digits_value :: "string \<Rightarrow> nat" where
  "digits_value ds = foldl (\<lambda>acc c. 10 * acc + (of_char c - 48)) 0 ds"

definition stoi :: "string \<Rightarrow> error + int" where
  "stoi str =
     (let s1 = dropWhile isspace str;
          negative = (case s1 of [] \<Rightarrow> False | c # r \<Rightarrow> c = CHR ''-'');
          s2 = (case s1 of [] \<Rightarrow> [] | c # r \<Rightarrow> if c = CHR ''-'' \<or> c = CHR ''+'' then r else s1);
          ds = takeWhile isdigit s2;
          v = (if negative then - int (digits_value ds) else int (digits_value ds))
      in if ds = [] then Inl InvalidArgument
         else if v < - (2 ^ 31) \<or> 2 ^ 31 \<le> v then Inl OutOfRange
         else Inr v)"

definition CAFFE_ENFORCE_GE :: "nat \<Rightarrow> nat \<Rightarrow> string \<Rightarrow> error + unit" where
  "CAFFE_ENFORCE_GE x y msg = (if x \<ge> y then Inr () else Inl (EnforceError msg))"

text \<open>The inner loop of \<open>parse_input_shapes\<close>: \<open>input_dims.push_back(c10::stoi(s))\<close>
  (the local vector \<open>input_dims\<close> is \<open>dims\<close> here, the flag keeps the name).\<close>

fun parse_dims :: "string list \<Rightarrow> int list \<Rightarrow> error + int list" where
  "parse_dims [] dims = Inr dims"
| "parse_dims (s # rest) dims =
     (case stoi s of
        Inl e \<Rightarrow> Inl e
      | Inr n \<Rightarrow> parse_dims rest (dims @ [n]))"

text \<open>The outer loop: one vector per piece of the semicolon split.\<close>

fun parse_items :: "string list \<Rightarrow> shape list \<Rightarrow> error + shape list" where
  "parse_items [] inputs = Inr inputs"
| "parse_items (input_dims_item # rest) inputs =
     (case parse_dims (split CHR '','' input_dims_item True) [] of
        Inl e \<Rightarrow> Inl e
      | Inr dims \<Rightarrow> parse_items rest (inputs @ [dims]))"

definition parse_input_shapes :: "flags \<Rightarrow> error + shape list" where
  "parse_input_shapes fl =
     (case CAFFE_ENFORCE_GE (length (input_dims fl)) 0 ''Input dims must be specified.'' of
        Inl e \<Rightarrow> Inl e
      | Inr u \<Rightarrow> parse_items (split CHR '';'' (input_dims fl) True) [])"

subsection \<open>\<open>create_compile_spec\<close>, \<open>get_input_sizes_for_method\<close>, \<open>get_nnc_kernel_id\<close>\<close>

definition create_compile_spec :: "flags \<Rightarrow> error + dict" where
  "create_compile_spec fl =
     (case parse_input_shapes fl of
        Inl e \<Rightarrow> Inl e
      | Inr input_shapes \<Rightarrow>
          if length input_shapes = 1
          then (let method_spec = dict_insert [] ''sizes'' (IntList (input_shapes ! 0));
                    compile_spec = dict_insert [] ''forward'' (GenericDict method_spec)
                in Inr compile_spec)
          else Inl (CheckError ''Wrong # of input shapes: '' (length input_shapes)))"

definition get_input_sizes_for_method :: "dict \<Rightarrow> string \<Rightarrow> error + int list" where
  "get_input_sizes_for_method method_compile_spec method_name =
     (case dict_at method_compile_spec method_name of
        Inl e \<Rightarrow> Inl e
      | Inr v \<Rightarrow>
          (case toGenericDict v of
             Inl e \<Rightarrow> Inl e
           | Inr d \<Rightarrow>
               (case dict_at d ''sizes'' of
                  Inl e \<Rightarrow> Inl e
                | Inr sz \<Rightarrow> toIntVector sz)))"

definition get_nnc_kernel_id :: "flags \<Rightarrow> string \<Rightarrow> string" where
  "get_nnc_kernel_id fl method_name =
     (let version_token = ''VERTOKEN''
      in model_name fl @ '':'' @ model_version fl @ '':'' @ method_name @ '':'' @ version_token)"

subsection \<open>Output names\<close>

text \<open>
  \<open>std::string::find\<close> and \<open>substr\<close>: \<open>None\<close> stands for \<open>npos\<close>, which is larger
  than the size of any string, so that \<open>substr\<close> with it runs to the end. \<open>substr\<close>
  raises \<open>std::out_of_range\<close> for a start beyond the end; the driver starts at \<open>0\<close>.
\<close>

definition find_char :: "string \<Rightarrow> char \<Rightarrow> nat option" where
  "find_char s c = (if c \<in> set s then Some (length (takeWhile (\<lambda>x. x \<noteq> c) s)) else None)"

definition substr :: "string \<Rightarrow> nat \<Rightarrow> nat option \<Rightarrow> error + string" where
  "substr s pos count =
     (if length s < pos then Inl OutOfRange
      else Inr (case count of None \<Rightarrow> drop pos s | Some n \<Rightarrow> take n (drop pos s)))"

subsection \<open>Graphs, modules, kernels\<close>

text \<open>
  Modelled from the spec: \<open>torch::jit::Graph\<close> and \<open>torch::jit::Module\<close> are declared
  outside the sources. A graph is what the spec's data model says the driver can see of
  it: its inputs, in positional order, each with an optional shape annotation, and a
  body the driver never looks into. A module is what the model loader's interface names:
  ``a loaded module exposing named methods, each with a graph''.
\<close>

record 'b graph =
  graph_inputs :: "shape option list"
  graph_body :: 'b

type_synonym 'b module = "(string \<times> 'b graph) list"

definition get_method :: "'b module \<Rightarrow> string \<Rightarrow> error + 'b graph" where
  "get_method m name = (case map_of m name of None \<Rightarrow> Inl (KeyError name) | Some g \<Rightarrow> Inr g)"

text \<open>
  The graph a method hands out is the object the module holds (a shared pointer): a pass
  that rewrites it in place is seen through the module afterwards.
\<close>

definition set_method :: "'b module \<Rightarrow> string \<Rightarrow> 'b graph \<Rightarrow> 'b module" where
  "set_method m name g = map (\<lambda>entry. if fst entry = name then (name, g) else entry) m"

text \<open>
  Modelled from the spec: \<open>torch::jit::tensorexpr::annotateInputShapes\<close> is not among
  the sources. Its contract in the spec: ``input is the graph plus one ordered sequence
  of concrete dimension-extents per declared input. For each graph input, in positional
  order, attach the corresponding static shape. Fails if the number of declared shape
  entries does not match the number of graph inputs''. The driver passes it example
  tensors; only their sizes are kept here.
\<close>

definition annotateInputShapes :: "'b graph \<Rightarrow> shape list \<Rightarrow> error + 'b graph" where
  "annotateInputShapes g shapes =
     (if length (graph_inputs g) = length shapes
      then Inr (g\<lparr>graph_inputs := map Some shapes\<rparr>)
      else Inl (ShapeCountError (length (graph_inputs g)) (length shapes)))"

text \<open>
  \<open>mobile::nnc::Function\<close>, the invocation descriptor: the driver only sets its kernel
  id; whatever else it holds is the record's extension.
\<close>

record nnc_function =
  nnc_kernel_id :: string

definition set_nnc_kernel_id :: "'f nnc_function_scheme \<Rightarrow> string \<Rightarrow> 'f nnc_function_scheme" where
  "set_nnc_kernel_id func kid = func\<lparr>nnc_kernel_id := kid\<rparr>"

text \<open>\<open>CompilationUnit\<close>: the functions registered so far, in order.\<close>

definition register_function ::
  "'f nnc_function_scheme list \<Rightarrow> 'f nnc_function_scheme \<Rightarrow> 'f nnc_function_scheme list" where
  "register_function cu func = cu @ [func]"

text \<open>
  The library calls of the driver whose code is outside this file, each one a function
  the driver is given: \<open>'b\<close> is the body of a graph, \<open>'f\<close> the rest of a kernel
  descriptor, \<open>'s\<close> a serialized compilation unit, \<open>'c\<close> a compiled module.
  \<open>freeze_module\<close> stands for \<open>m.eval()\<close> followed by \<open>freeze_module(m.clone())\<close>, and
  \<open>lower_module\<close> for what \<open>codegen_backend_module\<close> does with the result of the
  registered preprocess function.
\<close>

record ('b, 'f, 's, 'c) externals =
  load :: "string \<Rightarrow> error + 'b module"
  freeze_module :: "'b module \<Rightarrow> error + 'b module"
  RemoveTensorMutation :: "'b graph \<Rightarrow> error + 'b graph"
  EliminateDeadCode :: "'b graph \<Rightarrow> error + 'b graph"
  removeUnusedSelfArgument :: "'b graph \<Rightarrow> error + 'b graph"
  OptimizeFrozenGraph :: "'b graph \<Rightarrow> error + 'b graph"
  PropagateShapesOnGraph :: "'b graph \<Rightarrow> error + 'b graph"
  PeepholeOptimize :: "'b graph \<Rightarrow> error + 'b graph"
  ConstantPropagation :: "'b graph \<Rightarrow> error + 'b graph"
  aot_compile :: "string \<Rightarrow> 'b graph \<Rightarrow> int list \<Rightarrow> error + ('f nnc_function_scheme \<times> string)"
  serialize :: "'f nnc_function_scheme list \<Rightarrow> 's"
  lower_module :: "'b module \<Rightarrow> dict \<Rightarrow> 's \<Rightarrow> error + 'c"
  save_for_mobile :: "'c \<Rightarrow> string \<Rightarrow> error + unit"

subsection \<open>Runs: what was called, and the result\<close>

text \<open>
  The driver works by effect: it rewrites a graph in place, writes files, and stops at
  the first exception. A run is the list of stages it entered, in order, and the result
  or the exception that ended it; a stage is entered before it can fail.
\<close>

datatype event =
    ModelLoad string
  | Freezing
  | MutationRemoval
  | DeadCodeElimination
  | SelfArgumentRemoval
  | ShapeAnnotation "shape list"
  | FrozenGraphOptimization
  | ShapePropagation
  | PeepholeRewriting
  | ConstantFolding
  | KernelCompilation string "int list"
  | AssemblyWrite string string
  | ModuleLowering
  | ModelSave string

type_synonym 'a run = "event list \<times> (error + 'a)"

definition lift :: "error + 'a \<Rightarrow> 'a run" where
  "lift r = ([], r)"

definition emit :: "event \<Rightarrow> error + 'a \<Rightarrow> 'a run" where
  "emit ev r = ([ev], r)"

definition seq :: "'a run \<Rightarrow> ('a \<Rightarrow> 'b run) \<Rightarrow> 'b run" where
  "seq r f =
     (case snd r of
        Inl e \<Rightarrow> (fst r, Inl e)
      | Inr x \<Rightarrow> (fst r @ fst (f x), snd (f x)))"

fun run_passes :: "(event \<times> ('g \<Rightarrow> error + 'g)) list \<Rightarrow> 'g \<Rightarrow> 'g run" where
  "run_passes [] g = lift (Inr g)"
| "run_passes (p # ps) g = seq (emit (fst p) (snd p g)) (run_passes ps)"

subsection \<open>\<open>write_output_assembly\<close>, \<open>preprocess\<close>\<close>

definition write_output_assembly :: "flags \<Rightarrow> string \<Rightarrow> unit run" where
  "write_output_assembly fl asm_code =
     seq (lift (if output_asm fl = []
                then (case substr (model fl) 0 (find_char (model fl) CHR ''.'') of
                        Inl e \<Rightarrow> Inl e
                      | Inr stem \<Rightarrow> Inr (stem @ ''.compiled.ll''))
                else Inr (output_asm fl)))
       (\<lambda>output_asm_name. emit (AssemblyWrite output_asm_name asm_code) (Inr ()))"

definition preprocess ::
  "('b, 'f, 's, 'c) externals \<Rightarrow> flags \<Rightarrow> 'b module \<Rightarrow> dict \<Rightarrow> 's run" where
  "preprocess ext fl module method_compile_spec =
     (let method_name = ''forward'' in
      seq (lift (get_method module method_name)) (\<lambda>graph.
      seq (lift (get_input_sizes_for_method method_compile_spec method_name)) (\<lambda>sizes.
      seq (emit (KernelCompilation method_name sizes)
             (aot_compile ext method_name graph sizes)) (\<lambda>compiled.
      seq (write_output_assembly fl (snd compiled)) (\<lambda>u.
      (let func = set_nnc_kernel_id (fst compiled) (get_nnc_kernel_id fl method_name);
           cu = register_function [] func
       in lift (Inr (serialize ext cu))))))))"


subsection \<open>\<open>main\<close>\<close>



text \<open>
  Line 168: the one example input, \<open>at::rand({1, 3, 224, 224})\<close>; of the tensor, the
  sizes.
\<close>

definition example_inputs :: "shape list" where
  "example_inputs = [[1, 3, 224, 224]]"

text \<open>
  Lines 170 to 177: the passes before the optimizer rounds, in the order of the calls.
  The shape annotator is given the example inputs of line 168.
\<close>

definition preparation_passes ::
  "('b, 'f, 's, 'c) externals \<Rightarrow> (event \<times> ('b graph \<Rightarrow> error + 'b graph)) list" where
  "preparation_passes ext =
     [(MutationRemoval, RemoveTensorMutation ext),
      (DeadCodeElimination, EliminateDeadCode ext),
      (SelfArgumentRemoval, removeUnusedSelfArgument ext),
      (ShapeAnnotation example_inputs, \<lambda>graph. annotateInputShapes graph example_inputs),
      (FrozenGraphOptimization, OptimizeFrozenGraph ext)]"

text \<open>Lines 178 to 183: shape propagation, peephole, constant propagation, written twice.\<close>

definition optimizer_passes ::
  "('b, 'f, 's, 'c) externals \<Rightarrow> (event \<times> ('b graph \<Rightarrow> error + 'b graph)) list" where
  "optimizer_passes ext =
     [(ShapePropagation, PropagateShapesOnGraph ext),
      (PeepholeRewriting, PeepholeOptimize ext),
      (ConstantFolding, ConstantPropagation ext),
      (ShapePropagation, PropagateShapesOnGraph ext),
      (PeepholeRewriting, PeepholeOptimize ext),
      (ConstantFolding, ConstantPropagation ext)]"

text \<open>
  Lines 164 to 184: the model is loaded and frozen, and the graph of its \<open>forward\<close>
  method goes through the passes. The result is the frozen module, holding the graph as
  the passes left it.
\<close>

definition optimize_model :: "('b, 'f, 's, 'c) externals \<Rightarrow> flags \<Rightarrow> 'b module run" where
  "optimize_model ext fl =
     seq (emit (ModelLoad (model fl)) (load ext (model fl))) (\<lambda>m.
     seq (emit Freezing (freeze_module ext m)) (\<lambda>frozen_m.
     seq (lift (get_method frozen_m ''forward'')) (\<lambda>graph.
     seq (run_passes (preparation_passes ext @ optimizer_passes ext) graph) (\<lambda>graph.
     lift (Inr (set_method frozen_m ''forward'' graph))))))"


subsection \<open>The optimizer fixpoint, in the spec's words\<close>

text \<open>
  One round, as the spec has it: (a) shape propagation, (b) peephole rewriting,
  (c) constant propagation, in this order.
\<close>

definition optimizer_round ::
  "('b, 'f, 's, 'c) externals \<Rightarrow> (event \<times> ('b graph \<Rightarrow> error + 'b graph)) list" where
  "optimizer_round ext =
     [(ShapePropagation, PropagateShapesOnGraph ext),
      (PeepholeRewriting, PeepholeOptimize ext),
      (ConstantFolding, ConstantPropagation ext)]"

text \<open>
  ``Iterate steps (a)-(c) for a bounded number of rounds (the reference behavior is two
  full rounds) or until no node's shape or value changes in a full round, whichever is
  reached first'': a round that leaves the graph as it was ends the iteration.
\<close>

fun fixpoint_rounds_spec ::
  "nat \<Rightarrow> (event \<times> ('g \<Rightarrow> error + 'g)) list \<Rightarrow> 'g \<Rightarrow> 'g run" where
  "fixpoint_rounds_spec 0 round g = lift (Inr g)"
| "fixpoint_rounds_spec (Suc n) round g =
     seq (run_passes round g)
       (\<lambda>g'. if g' = g then lift (Inr g') else fixpoint_rounds_spec n round g')"

definition optimizer_fixpoint_spec :: "('b, 'f, 's, 'c) externals \<Rightarrow> 'b graph \<Rightarrow> 'b graph run" where
  "optimizer_fixpoint_spec ext g = fixpoint_rounds_spec (Suc (Suc 0)) (optimizer_round ext) g"

subsection \<open>Well-formed input-dimension texts, in the spec's words\<close>

text \<open>
  ``One semicolon-separated group per input; comma-separated integers within a group'':
  the text of a list of groups. An integer is written in decimal, with a minus sign when
  it is negative.
\<close>

fun show_nat :: "nat \<Rightarrow> string" where
  "show_nat n =
     (if n < 10 then [char_of (48 + n)]
      else show_nat (n div 10) @ [char_of (48 + n mod 10)])"

declare show_nat.simps [simp del]

definition show_int :: "int \<Rightarrow> string" where
  "show_int i = (if i < 0 then CHR ''-'' # show_nat (nat (- i)) else show_nat (nat i))"

fun join :: "char \<Rightarrow> string list \<Rightarrow> string" where
  "join sep [] = []"
| "join sep [x] = x"
| "join sep (x # y # ys) = x @ sep # join sep (y # ys)"

definition render_shapes :: "shape list \<Rightarrow> string" where
  "render_shapes groups = join CHR '';'' (map (\<lambda>group. join CHR '','' (map show_int group)) groups)"

definition well_formed :: "shape list \<Rightarrow> bool" where
  "well_formed groups = list_all (\<lambda>group. group \<noteq> []) groups"

text \<open>
  The values of the C++ type \<open>int\<close>, which is what \<open>stoi\<close> returns. This is not part
  of what makes a text well formed: it is the condition under which the parser accepts
  one.
\<close>

definition int_range :: "int \<Rightarrow> bool" where
  "int_range i = (- (2 ^ 31) \<le> i \<and> i < 2 ^ 31)"

definition in_int_range :: "shape list \<Rightarrow> bool" where
  "in_int_range groups = list_all (list_all int_range) groups"

subsection \<open>A concrete run: one model, every library call succeeding\<close>

text \<open>
  Flags, a module whose \<open>forward\<close> graph has one tensor input, and library calls that
  leave the graph as it is: the inputs at which the properties below are evaluated.
\<close>

definition resnet_flags :: flags where
  "resnet_flags = \<lparr>model = ''model.v2.pt'', model_name = ''resnet'', model_version = ''1.0'',
     input_dims = ''1,3,224,224'', output_asm = '''', output_model = ''''\<rparr>"

definition relu_graph :: "unit graph" where
  "relu_graph = \<lparr>graph_inputs = [None], graph_body = ()\<rparr>"

definition relu_module :: "unit module" where
  "relu_module = [(''forward'', relu_graph)]"

definition small_image_flags :: flags where
  "small_image_flags = resnet_flags\<lparr>input_dims := ''1,3,32,32''\<rparr>"

definition plain_externals ::
  "(unit, unit, nnc_function list, unit module \<times> dict \<times> nnc_function list) externals" where
  "plain_externals =
     \<lparr>load = (\<lambda>path. Inr relu_module),
      freeze_module = Inr,
      RemoveTensorMutation = Inr,
      EliminateDeadCode = Inr,
      removeUnusedSelfArgument = Inr,
      OptimizeFrozenGraph = Inr,
      PropagateShapesOnGraph = Inr,
      PeepholeOptimize = Inr,
      ConstantPropagation = Inr,
      aot_compile = (\<lambda>name g sizes. Inr (\<lparr>nnc_kernel_id = ''''\<rparr>, ''asm'')),
      serialize = (\<lambda>cu. cu),
      lower_module = (\<lambda>m spec serialized. Inr (m, spec, serialized)),
      save_for_mobile = (\<lambda>compiled name. Inr ())\<rparr>"

definition two_group_flags :: flags where
  "two_group_flags = resnet_flags\<lparr>input_dims := ''1,3;4,5''\<rparr>"

section \<open>Properties\<close>

subsection \<open>Runs\<close>

lemma lift_parts [simp]: "fst (lift r) = []" "snd (lift r) = r"
  by (simp_all add: lift_def)

lemma emit_parts [simp]: "fst (emit ev r) = [ev]" "snd (emit ev r) = r"
  by (simp_all add: emit_def)

lemma seq_lift_Inr [simp]: "seq (lift (Inr x)) f = f x"
  by (simp add: seq_def lift_def)

lemma seq_lift_Inl [simp]: "seq (lift (Inl e)) f = ([], Inl e)"
  by (simp add: seq_def lift_def)

lemma seq_emit_Inr [simp]: "seq (emit ev (Inr x)) f = (ev # fst (f x), snd (f x))"
  by (simp add: seq_def emit_def)

lemma seq_emit_Inl [simp]: "seq (emit ev (Inl e)) f = ([ev], Inl e)"
  by (simp add: seq_def emit_def)

lemma seq_Inr_result [simp]: "seq (evs, Inr x) f = (evs @ fst (f x), snd (f x))"
  by (simp add: seq_def)

lemma seq_Inl_result [simp]: "seq (evs, Inl e) f = (evs, Inl e)"
  by (simp add: seq_def)

lemma seq_succeeds:
  assumes "seq r f = (evs, Inr y)"
  obtains e1 x e2 where "r = (e1, Inr x)" "f x = (e2, Inr y)" "evs = e1 @ e2"
proof (cases r)
  case (Pair e1 res)
  show ?thesis
  proof (cases res)
    case (Inl e)
    with Pair assms show ?thesis by simp
  next
    case (Inr x)
    from assms have "(e1 @ fst (f x), snd (f x)) = (evs, Inr y)"
      unfolding Pair Inr by simp
    then have "f x = (fst (f x), Inr y)" "evs = e1 @ fst (f x)"
      by (simp_all add: prod_eq_iff)
    with Pair Inr that show ?thesis by blast
  qed
qed

lemma lift_succeeds: "lift r = (evs, Inr x) \<Longrightarrow> r = Inr x \<and> evs = []"
  by (auto simp: lift_def)

lemma emit_succeeds: "emit ev r = (evs, Inr x) \<Longrightarrow> r = Inr x \<and> evs = [ev]"
  by (auto simp: emit_def)

lemma takeWhile_absent: "c \<notin> set s \<Longrightarrow> takeWhile (\<lambda>x. x \<noteq> c) s = s"
  by (induction s) auto

lemma stem_takeWhile: "substr s 0 (find_char s c) = Inr (takeWhile (\<lambda>x. x \<noteq> c) s)"
proof (cases "c \<in> set s")
  case True
  then show ?thesis
    by (simp add: substr_def find_char_def takeWhile_eq_take [symmetric])
next
  case False
  then show ?thesis by (simp add: substr_def find_char_def takeWhile_absent)
qed

lemma split_empty: "split sep [] ignore_empty = []"
  by (simp add: split_def split_loop.simps)

text \<open>
  C4: for every model name and model version, the kernel id set on the compiled function
  is the model name, the model version, the method name \<open>forward\<close> and the build
  token joined by colons, and the build token is the fixed text \<open>VERTOKEN\<close>: the id
  does not look at what was compiled. Whenever \<open>preprocess\<close> returns, what it
  serializes is the one function the kernel compiler gave, with that id.
\<close>

theorem kernel_id_forward_vertoken:
  "get_nnc_kernel_id fl ''forward'' =
     model_name fl @ '':'' @ model_version fl @ '':'' @ ''forward'' @ '':'' @ ''VERTOKEN''
   \<and> (snd (preprocess ext fl m spec) = Inr serialized \<longrightarrow>
        (\<exists>graph sizes func asm_code.
           aot_compile ext ''forward'' graph sizes = Inr (func, asm_code) \<and>
           serialized = serialize ext
             [func\<lparr>nnc_kernel_id :=
                model_name fl @ '':'' @ model_version fl @ '':'' @ ''forward'' @ '':'' @ ''VERTOKEN''\<rparr>]))"
proof (intro conjI impI)
  show "get_nnc_kernel_id fl ''forward'' =
     model_name fl @ '':'' @ model_version fl @ '':'' @ ''forward'' @ '':'' @ ''VERTOKEN''"
    by (simp add: get_nnc_kernel_id_def)
next
  assume ok: "snd (preprocess ext fl m spec) = Inr serialized"
  then obtain evs where run: "preprocess ext fl m spec = (evs, Inr serialized)"
    by (cases "preprocess ext fl m spec") simp
  from run obtain graph where g: "get_method m ''forward'' = Inr graph"
    by (cases "get_method m ''forward''") (simp_all add: preprocess_def)
  from run g obtain sizes where s: "get_input_sizes_for_method spec ''forward'' = Inr sizes"
    by (cases "get_input_sizes_for_method spec ''forward''") (simp_all add: preprocess_def)
  from run g s obtain compiled where c: "aot_compile ext ''forward'' graph sizes = Inr compiled"
    by (cases "aot_compile ext ''forward'' graph sizes") (simp_all add: preprocess_def)
  have w: "snd (write_output_assembly fl (snd compiled)) = Inr ()"
    by (simp add: write_output_assembly_def stem_takeWhile emit_def)
  from run g s c w have "serialized = serialize ext (register_function []
      (set_nnc_kernel_id (fst compiled) (get_nnc_kernel_id fl ''forward'')))"
    by (cases "write_output_assembly fl (snd compiled)") (simp add: preprocess_def Let_def)
  then have "serialized = serialize ext
             [(fst compiled)\<lparr>nnc_kernel_id :=
                model_name fl @ '':'' @ model_version fl @ '':'' @ ''forward'' @ '':'' @ ''VERTOKEN''\<rparr>]"
    by (simp add: register_function_def set_nnc_kernel_id_def get_nnc_kernel_id_def)
  with c show "\<exists>graph sizes func asm_code.
           aot_compile ext ''forward'' graph sizes = Inr (func, asm_code) \<and>
           serialized = serialize ext
             [func\<lparr>nnc_kernel_id :=
                model_name fl @ '':'' @ model_version fl @ '':'' @ ''forward'' @ '':'' @ ''VERTOKEN''\<rparr>]"
    by (metis prod.collapse)
qed

lemma parse_resnet: "parse_input_shapes resnet_flags = Inr [[1, 3, 224, 224]]"
  by (simp add: resnet_flags_def parse_input_shapes_def CAFFE_ENFORCE_GE_def split_def
      split_loop.simps stoi_def isspace_def isdigit_def digits_value_def)


theorem kernel_id_forward_vertoken_witness:
  "snd (preprocess plain_externals resnet_flags relu_module
          [(''forward'', GenericDict [(''sizes'', IntList [1, 3, 224, 224])])])
     = Inr [\<lparr>nnc_kernel_id = ''resnet:1.0:forward:VERTOKEN''\<rparr>]
   \<and> get_nnc_kernel_id resnet_flags ''forward'' = ''resnet:1.0:forward:VERTOKEN''"
proof -
  have run: "snd (preprocess plain_externals resnet_flags relu_module
          [(''forward'', GenericDict [(''sizes'', IntList [1, 3, 224, 224])])])
     = Inr [\<lparr>nnc_kernel_id = ''resnet:1.0:forward:VERTOKEN''\<rparr>]"
    by (simp add: preprocess_def get_method_def relu_module_def relu_graph_def get_input_sizes_for_method_def
        dict_at_def toGenericDict_def toIntVector_def plain_externals_def
        write_output_assembly_def stem_takeWhile resnet_flags_def set_nnc_kernel_id_def
        get_nnc_kernel_id_def register_function_def)
  from kernel_id_forward_vertoken [of resnet_flags plain_externals relu_module
      "[(''forward'', GenericDict [(''sizes'', IntList [1, 3, 224, 224])])]"
      "[\<lparr>nnc_kernel_id = ''resnet:1.0:forward:VERTOKEN''\<rparr>]"] run
  show ?thesis by (simp add: resnet_flags_def)
qed

lemma parse_two_groups: "parse_input_shapes two_group_flags = Inr [[1, 3], [4, 5]]"
  by (simp add: two_group_flags_def resnet_flags_def parse_input_shapes_def CAFFE_ENFORCE_GE_def split_def
      split_loop.simps stoi_def isspace_def isdigit_def digits_value_def)

subsection \<open>The compile spec\<close>

text \<open>
  C5: once the input-dimension flag has parsed, building the compile spec succeeds
  exactly when the parse holds one shape group. With any other number of groups (none,
  two, more) it fails the check \<open>Wrong # of input shapes\<close>, which reports that number;
  with one group, the spec has the single entry \<open>forward\<close>, whose own dictionary has
  the single entry \<open>sizes\<close>, holding that group.
\<close>

theorem compile_spec_exactly_one_group:
  "parse_input_shapes fl = Inr input_shapes \<Longrightarrow>
     ((\<exists>compile_spec. create_compile_spec fl = Inr compile_spec) \<longleftrightarrow> length input_shapes = 1)
   \<and> (length input_shapes \<noteq> 1 \<longrightarrow>
        create_compile_spec fl =
          Inl (CheckError ''Wrong # of input shapes: '' (length input_shapes)))
   \<and> (\<forall>group. input_shapes = [group] \<longrightarrow>
        create_compile_spec fl =
          Inr [(''forward'', GenericDict [(''sizes'', IntList group)])])"
  by (simp add: create_compile_spec_def dict_insert_def)

theorem compile_spec_exactly_one_group_witness:
  "parse_input_shapes resnet_flags = Inr [[1, 3, 224, 224]]
   \<and> create_compile_spec resnet_flags =
       Inr [(''forward'', GenericDict [(''sizes'', IntList [1, 3, 224, 224])])]
   \<and> parse_input_shapes two_group_flags = Inr [[1, 3], [4, 5]]
   \<and> create_compile_spec two_group_flags = Inl (CheckError ''Wrong # of input shapes: '' 2)"
  using compile_spec_exactly_one_group [OF parse_resnet]
    compile_spec_exactly_one_group [OF parse_two_groups]
  by (simp add: parse_resnet parse_two_groups)

lemma parse_dims_error:
  "parse_dims toks dims = Inl e \<Longrightarrow> e = InvalidArgument \<or> e = OutOfRange"
proof (induction toks arbitrary: dims)
  case Nil
  then show ?case by simp
next
  case (Cons s rest)
  show ?case
  proof (cases "stoi s")
    case (Inl e')
    with Cons.prems have "e = e'" by simp
    with Inl show ?thesis by (auto simp: stoi_def Let_def split: if_splits)
  next
    case (Inr n)
    with Cons show ?thesis by simp
  qed
qed

lemma parse_items_error:
  "parse_items items inputs = Inl e \<Longrightarrow> e = InvalidArgument \<or> e = OutOfRange"
proof (induction items arbitrary: inputs)
  case Nil
  then show ?case by simp
next
  case (Cons item rest)
  then show ?case
    by (cases "parse_dims (split CHR '','' item True) []") (auto dest: parse_dims_error)
qed

text \<open>
  C8: the guard with the message \<open>Input dims must be specified.\<close> compares a length
  with zero by \<open>\<ge>\<close>, so it passes for every flag text and \<open>parse_input_shapes\<close> never
  raises it. For the empty flag the parse is the empty list of groups, and the failure
  comes from \<open>create_compile_spec\<close> instead: the shape count check, reporting \<open>0\<close>.
\<close>

theorem input_dims_guard_always_passes:
  "CAFFE_ENFORCE_GE (length (input_dims fl)) 0 ''Input dims must be specified.'' = Inr ()
   \<and> parse_input_shapes fl \<noteq> Inl (EnforceError ''Input dims must be specified.'')
   \<and> parse_input_shapes (fl\<lparr>input_dims := ''''\<rparr>) = Inr []
   \<and> create_compile_spec (fl\<lparr>input_dims := ''''\<rparr>) =
       Inl (CheckError ''Wrong # of input shapes: '' 0)"
proof (intro conjI)
  show "CAFFE_ENFORCE_GE (length (input_dims fl)) 0 ''Input dims must be specified.'' = Inr ()"
    by (simp add: CAFFE_ENFORCE_GE_def)
  show "parse_input_shapes fl \<noteq> Inl (EnforceError ''Input dims must be specified.'')"
    by (auto simp: parse_input_shapes_def CAFFE_ENFORCE_GE_def dest: parse_items_error)
  show empty: "parse_input_shapes (fl\<lparr>input_dims := ''''\<rparr>) = Inr []"
    by (simp add: parse_input_shapes_def CAFFE_ENFORCE_GE_def split_empty)
  show "create_compile_spec (fl\<lparr>input_dims := ''''\<rparr>) =
       Inl (CheckError ''Wrong # of input shapes: '' 0)"
    by (simp add: create_compile_spec_def empty)
qed

subsection \<open>Output names and successful runs\<close>




lemma optimize_plain:
  "optimize_model plain_externals fl =
     ([ModelLoad (model fl), Freezing, MutationRemoval, DeadCodeElimination,
       SelfArgumentRemoval, ShapeAnnotation [[1, 3, 224, 224]], FrozenGraphOptimization,
       ShapePropagation, PeepholeRewriting, ConstantFolding,
       ShapePropagation, PeepholeRewriting, ConstantFolding],
      Inr [(''forward'', \<lparr>graph_inputs = [Some [1, 3, 224, 224]], graph_body = ()\<rparr>)])"
  by (simp add: optimize_model_def plain_externals_def relu_module_def relu_graph_def get_method_def
      preparation_passes_def optimizer_passes_def annotateInputShapes_def example_inputs_def
      set_method_def)






subsection \<open>The passes of \<open>main\<close>\<close>

lemma seq_assoc: "seq (seq r f) h = seq r (\<lambda>x. seq (f x) h)"
  by (simp add: seq_def split: sum.splits)

lemma run_passes_append:
  "run_passes (ps @ qs) g = seq (run_passes ps g) (run_passes qs)"
proof (induction ps arbitrary: g)
  case Nil
  show ?case by simp
next
  case (Cons p ps)
  have "run_passes (ps @ qs) = (\<lambda>x. seq (run_passes ps x) (run_passes qs))"
    by (rule ext) (rule Cons.IH)
  then show ?case by (simp add: seq_assoc)
qed

lemma run_passes_events:
  "run_passes ps g = (evs, Inr g') \<Longrightarrow> evs = map fst ps"
proof (induction ps arbitrary: g evs)
  case Nil
  then show ?case by (simp add: lift_def)
next
  case (Cons p ps)
  show ?case
  proof (cases "snd p g")
    case (Inl e)
    with Cons.prems show ?thesis by simp
  next
    case (Inr g1)
    with Cons.prems have "run_passes ps g1 = (fst (run_passes ps g1), Inr g')"
      and evs: "evs = fst p # fst (run_passes ps g1)"
      by (simp_all add: prod_eq_iff)
    from Cons.IH [OF this(1)] evs show ?thesis by simp
  qed
qed


text \<open>
  C1, evaluated on the code: the claim has the shape attached to each graph input equal to
  the shape declared in the input-dimension flag. The passes of \<open>main\<close> do not read the
  flag at all: whatever it holds, the run up to line 184 is the same. With the flag
  \<open>1,3,32,32\<close> the compile spec carries the declared sizes \<open>[1,3,32,32]\<close>, and the
  graph input is annotated \<open>[1,3,224,224]\<close>, the sizes of the example tensor of line 168.
\<close>

theorem annotated_shape_ignores_input_dims:
  "optimize_model ext (fl\<lparr>input_dims := declared\<rparr>) = optimize_model ext fl
   \<and> create_compile_spec small_image_flags =
       Inr [(''forward'', GenericDict [(''sizes'', IntList [1, 3, 32, 32])])]
   \<and> snd (optimize_model plain_externals small_image_flags) =
       Inr [(''forward'', \<lparr>graph_inputs = [Some [1, 3, 224, 224]], graph_body = ()\<rparr>)]"
proof (intro conjI)
  show "optimize_model ext (fl\<lparr>input_dims := declared\<rparr>) = optimize_model ext fl"
    by (simp add: optimize_model_def)
  have "parse_input_shapes small_image_flags = Inr [[1, 3, 32, 32]]"
    by (simp add: small_image_flags_def resnet_flags_def parse_input_shapes_def
        CAFFE_ENFORCE_GE_def split_def split_loop.simps stoi_def isspace_def isdigit_def
        digits_value_def)
  then show "create_compile_spec small_image_flags =
       Inr [(''forward'', GenericDict [(''sizes'', IntList [1, 3, 32, 32])])]"
    by (simp add: create_compile_spec_def dict_insert_def)
  show "snd (optimize_model plain_externals small_image_flags) =
       Inr [(''forward'', \<lparr>graph_inputs = [Some [1, 3, 224, 224]], graph_body = ()\<rparr>)]"
    by (simp add: optimize_plain)
qed




subsection \<open>The optimizer rounds\<close>

lemma optimizer_passes_rounds: "optimizer_passes ext = optimizer_round ext @ optimizer_round ext"
  by (simp add: optimizer_passes_def optimizer_round_def)

text \<open>
  C3, amended: the optimizer applies shape propagation, then peephole rewriting, then
  constant propagation, for exactly two full rounds, whatever the first round did: there
  is no test for convergence, and every run in which the passes succeed has entered all
  six. Its result (the graph, or the error) is the one the iteration that stops after an
  unchanged round would give.
\<close>

theorem optimizer_runs_two_rounds_always:
  "run_passes (optimizer_passes ext) g =
     seq (run_passes (optimizer_round ext) g) (run_passes (optimizer_round ext))
   \<and> (\<forall>evs g'. run_passes (optimizer_passes ext) g = (evs, Inr g') \<longrightarrow>
         evs = [ShapePropagation, PeepholeRewriting, ConstantFolding,
                ShapePropagation, PeepholeRewriting, ConstantFolding])
   \<and> snd (run_passes (optimizer_passes ext) g) = snd (optimizer_fixpoint_spec ext g)"
proof (intro conjI allI impI)
  show two: "run_passes (optimizer_passes ext) g =
     seq (run_passes (optimizer_round ext) g) (run_passes (optimizer_round ext))"
    by (simp add: optimizer_passes_rounds run_passes_append)
  show "evs = [ShapePropagation, PeepholeRewriting, ConstantFolding,
                ShapePropagation, PeepholeRewriting, ConstantFolding]"
    if "run_passes (optimizer_passes ext) g = (evs, Inr g')" for evs g'
    using run_passes_events [OF that] by (simp add: optimizer_passes_def)
  show "snd (run_passes (optimizer_passes ext) g) = snd (optimizer_fixpoint_spec ext g)"
  proof (cases "snd (run_passes (optimizer_round ext) g)")
    case (Inl e)
    then show ?thesis
      by (simp add: two optimizer_fixpoint_spec_def seq_def)
  next
    case (Inr g1)
    show ?thesis
    proof (cases "g1 = g")
      case True
      with Inr show ?thesis
        by (simp add: two optimizer_fixpoint_spec_def seq_def)
    next
      case False
      with Inr show ?thesis
        by (cases "snd (run_passes (optimizer_round ext) g1)")
          (simp_all add: two optimizer_fixpoint_spec_def seq_def)
    qed
  qed
qed

theorem optimizer_runs_two_rounds_always_witness:
  "run_passes (optimizer_passes plain_externals) relu_graph =
     ([ShapePropagation, PeepholeRewriting, ConstantFolding,
       ShapePropagation, PeepholeRewriting, ConstantFolding], Inr relu_graph)
   \<and> snd (optimizer_fixpoint_spec plain_externals relu_graph) = Inr relu_graph"
proof -
  have run: "run_passes (optimizer_passes plain_externals) relu_graph =
     ([ShapePropagation, PeepholeRewriting, ConstantFolding,
       ShapePropagation, PeepholeRewriting, ConstantFolding], Inr relu_graph)"
    by (simp add: optimizer_passes_def plain_externals_def)
  from optimizer_runs_two_rounds_always [of plain_externals relu_graph] run
  show ?thesis by simp
qed

text \<open>
  C3 as stated fails: where the first round leaves the graph as it was, the iteration of
  the spec ends after three passes, and the code runs the second round too.
\<close>

theorem optimizer_never_stops_early:
  "run_passes (optimizer_round plain_externals) relu_graph =
     ([ShapePropagation, PeepholeRewriting, ConstantFolding], Inr relu_graph)
   \<and> optimizer_fixpoint_spec plain_externals relu_graph =
     ([ShapePropagation, PeepholeRewriting, ConstantFolding], Inr relu_graph)
   \<and> run_passes (optimizer_passes plain_externals) relu_graph =
     ([ShapePropagation, PeepholeRewriting, ConstantFolding,
       ShapePropagation, PeepholeRewriting, ConstantFolding], Inr relu_graph)"
  by (simp add: optimizer_passes_def optimizer_round_def optimizer_fixpoint_spec_def
      plain_externals_def)

subsection \<open>The splitter\<close>

lemma getline_rest_shorter:
  "getline c s = Some (item, rest) \<Longrightarrow> length rest < length s"
proof (cases s)
  case Nil
  then show "getline c s = Some (item, rest) \<Longrightarrow> length rest < length s" by simp
next
  case (Cons x xs)
  have "length (dropWhile (\<lambda>y. y \<noteq> c) (x # xs)) \<le> length (x # xs)"
    by (rule length_dropWhile_le)
  then show "getline c s = Some (item, rest) \<Longrightarrow> length rest < length s"
    unfolding Cons by auto
qed

lemma dropWhile_absent: "c \<notin> set s \<Longrightarrow> dropWhile (\<lambda>x. x \<noteq> c) s = []"
  by (induction s) auto

lemma takeWhile_until_sep: "c \<notin> set a \<Longrightarrow> takeWhile (\<lambda>x. x \<noteq> c) (a @ c # b) = a"
  by (induction a) auto

lemma dropWhile_until_sep: "c \<notin> set a \<Longrightarrow> dropWhile (\<lambda>x. x \<noteq> c) (a @ c # b) = c # b"
  by (induction a) auto

lemma split_loop_step:
  "getline c s = Some (item, rest) \<Longrightarrow>
   split_loop c ie s ps =
     (if \<not> ie \<or> item \<noteq> [] then split_loop c ie rest (ps @ [item])
      else split_loop c ie rest ps)"
  by (subst split_loop.simps) simp

lemma split_loop_pieces:
  "split_loop c ie s ps = ps @ split_loop c ie s []"
proof (induction "length s" arbitrary: s ps rule: less_induct)
  case less
  show ?case
  proof (cases "getline c s")
    case None
    then show ?thesis by (simp add: split_loop.simps [of c ie s])
  next
    case (Some line)
    obtain item rest where line: "line = (item, rest)" by (cases line)
    with Some have line': "getline c s = Some (item, rest)" by simp
    then have shorter: "length rest < length s" by (rule getline_rest_shorter)
    show ?thesis
    proof (cases "\<not> ie \<or> item \<noteq> []")
      case True
      with split_loop_step [OF line', of ie ps]
      have "split_loop c ie s ps = split_loop c ie rest (ps @ [item])"
        by simp
      also have "\<dots> = (ps @ [item]) @ split_loop c ie rest []"
        by (rule less [OF shorter])
      also have "\<dots> = ps @ ([item] @ split_loop c ie rest [])" by simp
      also have "[item] @ split_loop c ie rest [] = split_loop c ie rest [item]"
        by (rule less [OF shorter, symmetric])
      also from True split_loop_step [OF line', of ie "[]"]
      have "split_loop c ie rest [item] = split_loop c ie s []"
        by simp
      finally show ?thesis .
    next
      case False
      with split_loop_step [OF line', of ie ps]
      have "split_loop c ie s ps = split_loop c ie rest ps"
        by simp
      also have "\<dots> = ps @ split_loop c ie rest []"
        by (rule less [OF shorter])
      also from False split_loop_step [OF line', of ie "[]"]
      have "split_loop c ie rest [] = split_loop c ie s []"
        by simp
      finally show ?thesis .
    qed
  qed
qed

lemma split_unfold:
  assumes "s \<noteq> []"
  shows "split c s True =
     (if takeWhile (\<lambda>x. x \<noteq> c) s = [] then [] else [takeWhile (\<lambda>x. x \<noteq> c) s]) @
     split c (drop 1 (dropWhile (\<lambda>x. x \<noteq> c) s)) True"
proof -
  from assms obtain x xs where s: "s = x # xs" by (cases s) auto
  show ?thesis
    unfolding s split_def
    by (subst split_loop.simps, subst split_loop_pieces) simp
qed

lemma split_unfold_as:
  assumes "s \<noteq> []"
    and "takeWhile (\<lambda>x. x \<noteq> c) s = item"
    and "drop 1 (dropWhile (\<lambda>x. x \<noteq> c) s) = rest"
  shows "split c s True = (if item = [] then [] else [item]) @ split c rest True"
  using split_unfold [OF assms(1), of c] unfolding assms(2,3) .

lemma split_append_sep:
  "split c (a @ c # b) True = split c a True @ split c b True"
proof (induction "length a" arbitrary: a rule: less_induct)
  case less
  show ?case
  proof (cases "c \<in> set a")
    case False
    then have tw: "takeWhile (\<lambda>x. x \<noteq> c) (a @ c # b) = a"
      and dw: "dropWhile (\<lambda>x. x \<noteq> c) (a @ c # b) = c # b"
      by (simp_all add: takeWhile_until_sep dropWhile_until_sep)
    have whole: "split c (a @ c # b) True = (if a = [] then [] else [a]) @ split c b True"
      by (subst split_unfold) (simp_all add: tw dw)
    from False have "split c a True = (if a = [] then [] else [a])"
      by (cases "a = []")
        (simp_all add: split_empty split_unfold [of a] takeWhile_absent dropWhile_absent)
    with whole show ?thesis by simp
  next
    case True
    then have a: "a \<noteq> []" by auto
    define item where "item = takeWhile (\<lambda>x. x \<noteq> c) a"
    define r where "r = drop 1 (dropWhile (\<lambda>x. x \<noteq> c) a)"
    from True have nonempty: "dropWhile (\<lambda>x. x \<noteq> c) a \<noteq> []"
      by (simp add: dropWhile_eq_Nil_conv)
    have "length (dropWhile (\<lambda>x. x \<noteq> c) a) \<le> length a" by (rule length_dropWhile_le)
    with nonempty have shorter: "length r < length a"
      by (cases "dropWhile (\<lambda>x. x \<noteq> c) a") (simp_all add: r_def)
    from True have tw: "takeWhile (\<lambda>x. x \<noteq> c) (a @ c # b) = item"
      and dw: "dropWhile (\<lambda>x. x \<noteq> c) (a @ c # b) = dropWhile (\<lambda>x. x \<noteq> c) a @ c # b"
      by (simp_all add: item_def takeWhile_append1 dropWhile_append1)
    from nonempty have "drop 1 (dropWhile (\<lambda>x. x \<noteq> c) a @ c # b) = r @ c # b"
      by (cases "dropWhile (\<lambda>x. x \<noteq> c) a") (simp_all add: r_def)
    then have rest: "drop 1 (dropWhile (\<lambda>x. x \<noteq> c) (a @ c # b)) = r @ c # b"
      by (simp only: dw)
    have "split c (a @ c # b) True = (if item = [] then [] else [item]) @ split c (r @ c # b) True"
      by (rule split_unfold_as [OF _ tw rest]) simp
    also have "split c (r @ c # b) True = split c r True @ split c b True"
      by (rule less [OF shorter])
    also have "(if item = [] then [] else [item]) @ split c r True @ split c b True =
        split c a True @ split c b True"
      using a by (simp add: split_unfold [of a] item_def r_def)
    finally show ?thesis .
  qed
qed

lemma split_without_sep:
  "c \<notin> set w \<Longrightarrow> w \<noteq> [] \<Longrightarrow> split c w True = [w]"
  by (simp add: split_unfold [of w] takeWhile_absent dropWhile_absent split_empty)














subsection \<open>Parsing the text of a list of groups\<close>

lemma digit_char:
  assumes "d < 10"
  shows "of_char (char_of (48 + d :: nat)) = 48 + d"
  using assms by simp

lemma show_nat_digits: "list_all isdigit (show_nat n)"
proof (induction n rule: show_nat.induct)
  case (1 n)
  show ?case
  proof (cases "n < 10")
    case True
    then show ?thesis by (subst show_nat.simps) (simp add: isdigit_def)
  next
    case False
    have "n mod 10 < 10" by simp
    then have "isdigit (char_of (48 + n mod 10))"
      unfolding isdigit_def by (simp add: digit_char)
    with False 1 show ?thesis by (subst show_nat.simps) simp
  qed
qed

lemma show_nat_nonempty: "show_nat n \<noteq> []"
  by (subst show_nat.simps) simp

lemma digits_value_snoc:
  "digits_value (ds @ [d]) = 10 * digits_value ds + (of_char d - 48)"
  by (simp add: digits_value_def)

lemma digits_value_show_nat: "digits_value (show_nat n) = n"
proof (induction n rule: show_nat.induct)
  case (1 n)
  show ?case
  proof (cases "n < 10")
    case True
    then show ?thesis by (subst show_nat.simps) (simp add: digits_value_def)
  next
    case False
    have "n mod 10 < 10" by simp
    then have "of_char (char_of (48 + n mod 10)) - 48 = n mod 10"
      by (simp add: digit_char)
    with False 1 show ?thesis
      by (subst show_nat.simps) (simp add: digits_value_snoc)
  qed
qed

lemma digit_is_plain:
  assumes "isdigit c"
  shows "\<not> isspace c" "c \<noteq> CHR ''-''" "c \<noteq> CHR ''+''" "c \<noteq> CHR '',''" "c \<noteq> CHR '';''"
  using assms by (auto simp: isdigit_def isspace_def)

lemma takeWhile_all: "list_all P xs \<Longrightarrow> takeWhile P xs = xs"
  by (induction xs) auto

lemma stoi_digits:
  assumes "list_all isdigit ds" and "ds \<noteq> []"
  shows "stoi ds =
      (if 2 ^ 31 \<le> int (digits_value ds) then Inl OutOfRange else Inr (int (digits_value ds)))"
    and "stoi (CHR ''-'' # ds) =
      (if 2 ^ 31 < int (digits_value ds) then Inl OutOfRange else Inr (- int (digits_value ds)))"
proof -
  from assms obtain c r where ds: "ds = c # r" by (cases ds) auto
  with assms(1) have c: "isdigit c" by simp
  have all: "takeWhile isdigit ds = ds" by (rule takeWhile_all [OF assms(1)])
  have keep: "dropWhile isspace ds = ds"
    using digit_is_plain(1) [OF c] by (simp add: ds)
  have sign: "c \<noteq> CHR ''-''" "c \<noteq> CHR ''+''"
    using digit_is_plain(2,3) [OF c] by simp_all
  have "(case ds of [] \<Rightarrow> False | c # r \<Rightarrow> c = CHR ''-'') = False"
    "(case ds of [] \<Rightarrow> [] | c # r \<Rightarrow> if c = CHR ''-'' \<or> c = CHR ''+'' then r else ds) = ds"
    using sign by (simp_all add: ds)
  with assms(2) show "stoi ds =
      (if 2 ^ 31 \<le> int (digits_value ds) then Inl OutOfRange else Inr (int (digits_value ds)))"
    by (simp add: stoi_def keep all Let_def)
  have "\<not> isspace CHR ''-''" by (simp add: isspace_def)
  then have "dropWhile isspace (CHR ''-'' # ds) = CHR ''-'' # ds" by simp
  with assms(2) show "stoi (CHR ''-'' # ds) =
      (if 2 ^ 31 < int (digits_value ds) then Inl OutOfRange else Inr (- int (digits_value ds)))"
    by (simp add: stoi_def all Let_def)
qed

lemma stoi_show_int:
  assumes "int_range i"
  shows "stoi (show_int i) = Inr i"
proof (cases "i < 0")
  case False
  from assms False have bound: "\<not> 2 ^ 31 \<le> int (nat i)" by (simp add: int_range_def)
  from False have "stoi (show_int i) = stoi (show_nat (nat i))"
    by (simp add: show_int_def)
  also from bound have "\<dots> = Inr (int (nat i))"
    by (simp only: stoi_digits(1) [OF show_nat_digits show_nat_nonempty]
        digits_value_show_nat if_False)
  also from False have "int (nat i) = i" by simp
  finally show ?thesis .
next
  case True
  from assms True have bound: "\<not> 2 ^ 31 < int (nat (- i))" by (simp add: int_range_def)
  from True have "stoi (show_int i) = stoi (CHR ''-'' # show_nat (nat (- i)))"
    by (simp add: show_int_def)
  also from bound have "\<dots> = Inr (- int (nat (- i)))"
    by (simp only: stoi_digits(2) [OF show_nat_digits show_nat_nonempty]
        digits_value_show_nat if_False)
  also from True have "- int (nat (- i)) = i" by simp
  finally show ?thesis .
qed

lemma show_int_plain:
  "show_int i \<noteq> []" "CHR '','' \<notin> set (show_int i)" "CHR '';'' \<notin> set (show_int i)"
proof -
  show "show_int i \<noteq> []" by (simp add: show_int_def show_nat_nonempty)
  have "c \<noteq> CHR '',''" "c \<noteq> CHR '';''" if "c \<in> set (show_nat n)" for c n
    using show_nat_digits [of n] that digit_is_plain(4,5) [of c]
    by (auto simp: list_all_iff)
  then show "CHR '','' \<notin> set (show_int i)" "CHR '';'' \<notin> set (show_int i)"
    by (auto simp: show_int_def)
qed

lemma split_join:
  "list_all (\<lambda>x. x \<noteq> [] \<and> c \<notin> set x) xs \<Longrightarrow> split c (join c xs) True = xs"
proof (induction c xs rule: join.induct)
  case (1 sep)
  show ?case by (simp add: split_empty)
next
  case (2 sep x)
  then show ?case by (simp add: split_without_sep)
next
  case (3 sep x y ys)
  then show ?case by (simp add: split_append_sep split_without_sep)
qed

lemma join_plain:
  "list_all (\<lambda>x. x \<noteq> [] \<and> c \<notin> set x) xs \<Longrightarrow> xs \<noteq> [] \<Longrightarrow> c \<noteq> sep \<Longrightarrow>
   join sep xs \<noteq> [] \<and> c \<notin> set (join sep xs)"
  by (induction sep xs rule: join.induct) auto

lemma stoi_show_int_outside:
  assumes "\<not> int_range i"
  shows "stoi (show_int i) = Inl OutOfRange"
proof (cases "i < 0")
  case False
  from assms False have bound: "2 ^ 31 \<le> int (nat i)" by (simp add: int_range_def)
  from False have "stoi (show_int i) = stoi (show_nat (nat i))"
    by (simp add: show_int_def)
  also from bound have "\<dots> = Inl OutOfRange"
    by (simp only: stoi_digits(1) [OF show_nat_digits show_nat_nonempty]
        digits_value_show_nat if_True)
  finally show ?thesis .
next
  case True
  from assms True have bound: "2 ^ 31 < int (nat (- i))" by (simp add: int_range_def)
  from True have "stoi (show_int i) = stoi (CHR ''-'' # show_nat (nat (- i)))"
    by (simp add: show_int_def)
  also from bound have "\<dots> = Inl OutOfRange"
    by (simp only: stoi_digits(2) [OF show_nat_digits show_nat_nonempty]
        digits_value_show_nat if_True)
  finally show ?thesis .
qed

lemma parse_dims_show:
  "parse_dims (map show_int ints) dims =
     (if list_all int_range ints then Inr (dims @ ints) else Inl OutOfRange)"
proof (induction ints arbitrary: dims)
  case Nil
  show ?case by simp
next
  case (Cons i rest)
  show ?case
  proof (cases "int_range i")
    case True
    then show ?thesis by (simp add: stoi_show_int Cons.IH)
  next
    case False
    then show ?thesis by (simp add: stoi_show_int_outside)
  qed
qed

lemma split_group_text:
  "split CHR '','' (join CHR '','' (map show_int ints)) True = map show_int ints"
proof -
  have "list_all (\<lambda>x. x \<noteq> [] \<and> CHR '','' \<notin> set x) (map show_int ints)"
    by (simp add: list_all_iff show_int_plain)
  then show ?thesis by (rule split_join)
qed

lemma parse_items_render:
  "parse_items (map (\<lambda>group. join CHR '','' (map show_int group)) groups) inputs =
     (if in_int_range groups then Inr (inputs @ groups) else Inl OutOfRange)"
proof (induction groups arbitrary: inputs)
  case Nil
  show ?case by (simp add: in_int_range_def)
next
  case (Cons ints rest)
  show ?case
  proof (cases "list_all int_range ints")
    case True
    with Cons.IH [of "inputs @ [ints]"] show ?thesis
      by (simp add: split_group_text parse_dims_show in_int_range_def)
  next
    case False
    then show ?thesis
      by (simp add: split_group_text parse_dims_show in_int_range_def)
  qed
qed

lemma split_render_shapes:
  assumes "well_formed groups"
  shows "split CHR '';'' (render_shapes groups) True =
      map (\<lambda>group. join CHR '','' (map show_int group)) groups"
proof -
  have "join CHR '','' (map show_int ints) \<noteq> [] \<and>
      CHR '';'' \<notin> set (join CHR '','' (map show_int ints))"
    if "ints \<noteq> []" for ints
    using that by (intro join_plain) (simp_all add: list_all_iff show_int_plain)
  with assms have "list_all (\<lambda>x. x \<noteq> [] \<and> CHR '';'' \<notin> set x)
      (map (\<lambda>group. join CHR '','' (map show_int group)) groups)"
    by (auto simp: well_formed_def list_all_iff)
  then show ?thesis
    unfolding render_shapes_def by (rule split_join)
qed

lemma digit_chars:
  "char_of (48 :: nat) = CHR ''0''" "char_of (49 :: nat) = CHR ''1''"
  "char_of (50 :: nat) = CHR ''2''" "char_of (51 :: nat) = CHR ''3''"
  "char_of (52 :: nat) = CHR ''4''" "char_of (53 :: nat) = CHR ''5''"
  "char_of (54 :: nat) = CHR ''6''" "char_of (55 :: nat) = CHR ''7''"
  "char_of (56 :: nat) = CHR ''8''" "char_of (57 :: nat) = CHR ''9''"
  by code_simp+

lemma render_example: "render_shapes [[1, 3, 224, 224], [- 4, 0]] = ''1,3,224,224;-4,0''"
  by (simp add: render_shapes_def show_int_def show_nat.simps digit_chars)

lemma render_large_example: "render_shapes [[1, 3000000000]] = ''1,3000000000''"
  by (simp add: render_shapes_def show_int_def show_nat.simps digit_chars)

text \<open>
  C7, amended: a well-formed input-dimension text is the text of \<open>G\<close> groups joined by
  semicolons, each group one or more integers written in decimal and joined by commas.
  When every integer is within the 32-bit \<open>int\<close> range, the parser returns exactly
  those \<open>G\<close> integer sequences, in order: one group per segment, one integer per
  token. When some integer is outside that range, the parser raises
  \<open>std::out_of_range\<close> and returns nothing.
\<close>

theorem well_formed_text_parses_within_int_range:
  assumes "well_formed groups"
  shows "parse_input_shapes (fl\<lparr>input_dims := render_shapes groups\<rparr>) =
     (if in_int_range groups then Inr groups else Inl OutOfRange)"
  using parse_items_render [of groups "[]"]
  by (simp add: parse_input_shapes_def CAFFE_ENFORCE_GE_def split_render_shapes [OF assms])

theorem well_formed_text_parses_within_int_range_witness:
  "well_formed [[1, 3, 224, 224], [- 4, 0]]
   \<and> in_int_range [[1, 3, 224, 224], [- 4, 0]]
   \<and> render_shapes [[1, 3, 224, 224], [- 4, 0]] = ''1,3,224,224;-4,0''
   \<and> parse_input_shapes (resnet_flags\<lparr>input_dims := ''1,3,224,224;-4,0''\<rparr>) =
       Inr [[1, 3, 224, 224], [- 4, 0]]"
proof -
  have w: "well_formed [[1, 3, 224, 224], [- 4, 0]]"
    by (simp add: well_formed_def)
  have r: "in_int_range [[1, 3, 224, 224], [- 4, 0]]"
    by (simp add: in_int_range_def int_range_def)
  from well_formed_text_parses_within_int_range [OF w, of resnet_flags] w r
  show ?thesis by (simp add: render_example)
qed

text \<open>
  C7 as stated fails: \<open>1,3000000000\<close> is one group of two decimal integers, and the
  parser does not return \<open>[[1, 3000000000]]\<close> for it: the second token is beyond the
  \<open>int\<close> that \<open>stoi\<close> returns, although the vector it is stored in holds 64-bit
  integers.
\<close>

theorem large_dimension_is_out_of_range:
  "well_formed [[1, 3000000000]]
   \<and> render_shapes [[1, 3000000000]] = ''1,3000000000''
   \<and> parse_input_shapes (resnet_flags\<lparr>input_dims := ''1,3000000000''\<rparr>) = Inl OutOfRange
   \<and> parse_input_shapes (resnet_flags\<lparr>input_dims := ''1,3000000000''\<rparr>) \<noteq>
       Inr [[1, 3000000000]]"
proof -
  have "parse_input_shapes (resnet_flags\<lparr>input_dims := ''1,3000000000''\<rparr>) = Inl OutOfRange"
    by (simp add: parse_input_shapes_def CAFFE_ENFORCE_GE_def split_def
        split_loop.simps stoi_def isspace_def isdigit_def digits_value_def)
  then show ?thesis
    by (simp add: well_formed_def render_large_example)
qed

end
